theory Spec2Isabelle
  imports Main "HOL-Library.Char_ord" "HOL-Library.List_Lexorder" "HOL-Library.Sublist"
begin

section \<open>Manifests as text: awk records and the unmakerelative filter\<close>

text \<open>
  The workspace is driven by a Makefile. Its \<^verbatim>\<open>unmakerelative\<close> target runs, for every
  discovered module \<open>m\<close>,
  \<^verbatim>\<open>awk -v b="$MARK_BEGIN" -v e="$MARK_END"
      'BEGIN{skip=0} { if($0==b){skip=1; next} if($0==e){skip=0; next} if(!skip) print $0 }'
      "$m/go.mod" > "$m/go.mod.tmp"; mv "$m/go.mod.tmp" "$m/go.mod"\<close>
  under \<^verbatim>\<open>set -e\<close>. A file is a string of bytes. awk cuts its input into records at
  every newline (a last record that lacks its newline is still a record) and
  \<^verbatim>\<open>print\<close> writes a record followed by a newline.
\<close>

definition newline :: char where
  "newline = CHR 0x0A"

fun awk_records :: "string \<Rightarrow> string list" where
  "awk_records [] = []"
| "awk_records (c # cs) =
     (if c = newline then [] # awk_records cs
      else (case awk_records cs of
              [] \<Rightarrow> [[c]]
            | r # rs \<Rightarrow> (c # r) # rs))"

definition awk_print :: "string list \<Rightarrow> string" where
  "awk_print ls = concat (map (\<lambda>l. l @ [newline]) ls)"

definition MARK_BEGIN :: string where
  "MARK_BEGIN = ''# BEGIN makerelative (auto-generated)''"

definition MARK_END :: string where
  "MARK_END = ''# END makerelative (auto-generated)''"

text \<open>
  The awk program, record by record. \<open>b\<close> and \<open>e\<close> are the two \<^verbatim>\<open>-v\<close> variables, the
  flag is the variable \<^verbatim>\<open>skip\<close>, the result is the list of records printed. Neither
  marker looks like a number, so \<^verbatim>\<open>$0==b\<close> is a comparison of strings.
\<close>

fun awk_prog :: "string \<Rightarrow> string \<Rightarrow> bool \<Rightarrow> string list \<Rightarrow> string list" where
  "awk_prog b e skip [] = []"
| "awk_prog b e skip (l # ls) =
     (if l = b then awk_prog b e True ls
      else if l = e then awk_prog b e False ls
      else if \<not> skip then l # awk_prog b e skip ls
      else awk_prog b e skip ls)"

text \<open>The value of \<^verbatim>\<open>skip\<close> once the given records have been read.\<close>

fun awk_skip :: "string \<Rightarrow> string \<Rightarrow> bool \<Rightarrow> string list \<Rightarrow> bool" where
  "awk_skip b e skip [] = skip"
| "awk_skip b e skip (l # ls) =
     awk_skip b e (if l = b then True else if l = e then False else skip) ls"

definition unmakerelative_lines :: "string list \<Rightarrow> string list" where
  "unmakerelative_lines C = awk_prog MARK_BEGIN MARK_END False C"

definition unmakerelative_text :: "string \<Rightarrow> string" where
  "unmakerelative_text c = awk_print (unmakerelative_lines (awk_records c))"

text \<open>
  The files the target touches, as a store from path to content, and what the recipe
  echoes. awk leaves with status 2 when it cannot read its input (the redirection has
  created the empty temporary file by then), \<^verbatim>\<open>mv\<close> with status 1 when its source is
  missing; \<^verbatim>\<open>set -e\<close> ends the recipe at the first command that fails. The directories
  are taken to be writable.
\<close>

type_synonym files = "string \<rightharpoonup> string"

record toggler_state =
  store :: files
  echoed :: "string list"

definition awk_to_tmp :: "string \<Rightarrow> string \<Rightarrow> files \<Rightarrow> nat \<times> files" where
  "awk_to_tmp gomod tmp fs =
     (case fs gomod of
        None \<Rightarrow> (2, fs(tmp \<mapsto> []))
      | Some c \<Rightarrow> (0, fs(tmp \<mapsto> unmakerelative_text c)))"

definition mv :: "string \<Rightarrow> string \<Rightarrow> files \<Rightarrow> nat \<times> files" where
  "mv src dst fs =
     (case fs src of
        None \<Rightarrow> (1, fs)
      | Some c \<Rightarrow> (0, (fs(dst \<mapsto> c))(src := None)))"

definition unmakerelative_module :: "string \<Rightarrow> toggler_state \<Rightarrow> nat \<times> toggler_state" where
  "unmakerelative_module m s =
     (let gomod = m @ ''/go.mod'';
          s1 = s\<lparr>echoed := echoed s @ [''==> unmakerelative in '' @ m]\<rparr>;
          (r1, fs1) = awk_to_tmp gomod (gomod @ ''.tmp'') (store s1)
      in if r1 \<noteq> 0 then (r1, s1\<lparr>store := fs1\<rparr>)
         else (let (r2, fs2) = mv (gomod @ ''.tmp'') gomod fs1
               in (r2, s1\<lparr>store := fs2\<rparr>)))"

fun unmakerelative :: "string list \<Rightarrow> toggler_state \<Rightarrow> nat \<times> toggler_state" where
  "unmakerelative [] s = (0, s)"
| "unmakerelative (m # ms) s =
     (case unmakerelative_module m s of
        (r, s') \<Rightarrow> if r \<noteq> 0 then (r, s') else unmakerelative ms s')"

text \<open>
  Modelled from the spec: \<^verbatim>\<open>makerelative\<close> is an external binary that the Makefile only
  invokes (\<^verbatim>\<open>makerelative --config modman.toml\<close>); its code is not part of the
  repository. The spec's Enable inserts into a manifest a block made of a begin-marker
  line, one override directive per intra-workspace dependency and an end-marker line.
  The place of the block (\<open>k\<close> lines from the top) and the directives \<open>ds\<close> are
  parameters.
\<close>

definition makerelative :: "nat \<Rightarrow> string list \<Rightarrow> string list \<Rightarrow> string list" where
  "makerelative k ds C = take k C @ [MARK_BEGIN] @ ds @ [MARK_END] @ drop k C"






definition stray_end_manifest :: "string list" where
  "stray_end_manifest = [''module example.com/m'', MARK_END]"

section \<open>Paths\<close>

text \<open>
  A directory is the list of its components below the file-system root. A path is a
  string: it is cut at its slashes and walked from the current directory (from the root
  when it starts with a slash); an empty component and \<^verbatim>\<open>.\<close> stay in place, \<^verbatim>\<open>..\<close>
  goes one directory up. \<open>resolve\<close> is the directory or file a path names when every
  directory it passes through exists; \<open>cd_target\<close> below is what \<^verbatim>\<open>cd\<close> does, which
  checks this. Symbolic links are not modelled.
\<close>

fun split_slash :: "string \<Rightarrow> string list" where
  "split_slash [] = [[]]"
| "split_slash (c # cs) =
     (if c = CHR ''/'' then [] # split_slash cs
      else (case split_slash cs of
              [] \<Rightarrow> [[c]]
            | r # rs \<Rightarrow> (c # r) # rs))"

fun walk :: "string list \<Rightarrow> string list \<Rightarrow> string list" where
  "walk dir [] = dir"
| "walk dir (c # cs) =
     walk (if c = [] \<or> c = ''.'' then dir
           else if c = ''..'' then butlast dir
           else dir @ [c]) cs"

definition resolve :: "string list \<Rightarrow> string \<Rightarrow> string list" where
  "resolve dir p =
     walk (case p of [] \<Rightarrow> dir | c # _ \<Rightarrow> if c = CHR ''/'' then [] else dir)
          (split_slash p)"

definition abs_path :: "string list \<Rightarrow> string" where
  "abs_path dir = (if dir = [] then ''/'' else concat (map (\<lambda>c. CHR ''/'' # c) dir))"

definition plain_component :: "string \<Rightarrow> bool" where
  "plain_component c = (c \<noteq> [] \<and> c \<noteq> ''.'' \<and> c \<noteq> ''..'' \<and> CHR ''/'' \<notin> set c)"

text \<open>
  \<^verbatim>\<open>cd\<close> in bash: a \<^verbatim>\<open>..\<close> is taken only when the path walked so far is a directory, and
  the directory reached in the end must exist; otherwise \<^verbatim>\<open>cd\<close> fails with status 1 and
  the shell stays where it is. \<open>D\<close> tells which directories exist.
\<close>

fun cd_walk :: "(string list \<Rightarrow> bool) \<Rightarrow> string list \<Rightarrow> string list \<Rightarrow> string list option" where
  "cd_walk D dir [] = (if D dir then Some dir else None)"
| "cd_walk D dir (c # cs) =
     (if c = [] \<or> c = ''.'' then cd_walk D dir cs
      else if c = ''..'' then (if D dir then cd_walk D (butlast dir) cs else None)
      else cd_walk D (dir @ [c]) cs)"

definition cd_target :: "(string list \<Rightarrow> bool) \<Rightarrow> string list \<Rightarrow> string \<Rightarrow> string list option" where
  "cd_target D dir p =
     cd_walk D (case p of [] \<Rightarrow> dir | c # _ \<Rightarrow> if c = CHR ''/'' then [] else dir)
       (split_slash p)"

text \<open>White space, as in the class \<^verbatim>\<open>[[:space:]]\<close> and in the splitting of words.\<close>

definition is_space :: "char \<Rightarrow> bool" where
  "is_space c = (c \<in> set [CHR '' '', CHR 0x09, CHR 0x0A, CHR 0x0B, CHR 0x0C, CHR 0x0D])"

text \<open>
  A text cut at every character that satisfies \<open>P\<close>, and the words of a text: what is
  left between its white space. Make reads the value of a variable as its words, and so
  does the shell a text pasted into a recipe outside quotes.
\<close>

fun cut_at :: "(char \<Rightarrow> bool) \<Rightarrow> string \<Rightarrow> string list" where
  "cut_at P [] = [[]]"
| "cut_at P (c # cs) =
     (if P c then [] # cut_at P cs
      else (case cut_at P cs of
              [] \<Rightarrow> [[c]]
            | r # rs \<Rightarrow> (c # r) # rs))"

definition words :: "string \<Rightarrow> string list" where
  "words txt = filter (\<lambda>w. w \<noteq> []) (cut_at is_space txt)"

text \<open>
  Make pastes the selector \<^verbatim>\<open>$(MODULE)\<close> and the module paths into the text of a recipe.
  The recipes are modelled for paths that the shell and the commands read as they are
  written: letters, digits, slash, dot, underscore and hyphen, not starting with a hyphen
  (which \<^verbatim>\<open>cd\<close>, \<^verbatim>\<open>mkdir\<close> and \<^verbatim>\<open>echo\<close> would read as an option).
\<close>

definition safe_char :: "char \<Rightarrow> bool" where
  "safe_char c =
     (c \<in> set ''abcdefghijklmnopqrstuvwxyzABCDEFGHIJKLMNOPQRSTUVWXYZ0123456789/._-'')"

definition safe_path :: "string \<Rightarrow> bool" where
  "safe_path M =
     (list_all safe_char M \<and> (case M of [] \<Rightarrow> True | c # _ \<Rightarrow> c \<noteq> CHR ''-''))"

section \<open>Module discovery\<close>

text \<open>
  \<^verbatim>\<open>MODULES := $(shell find . -type f -name go.mod -not -path './go.mod'
      -exec dirname {} \; | sed 's|^./||' | sort -u)\<close>
  The tree below the workspace root is the list of its entries, each with the
  components of its path and its type. \<^verbatim>\<open>find .\<close> prints an entry as \<^verbatim>\<open>./a/b\<close>; the
  commands of the pipeline hand each other texts, one path a line.
\<close>

datatype ftype = Regular | Directory | Other

type_synonym tree = "(string list \<times> ftype) list"

definition find_path :: "string list \<Rightarrow> string" where
  "find_path cs = ''.'' @ concat (map (\<lambda>c. CHR ''/'' # c) cs)"

definition basename :: "string \<Rightarrow> string" where
  "basename p = rev (takeWhile (\<lambda>c. c \<noteq> CHR ''/'') (rev p))"

text \<open>
  \<^verbatim>\<open>dirname\<close> on what \<^verbatim>\<open>find\<close> prints (no trailing slash): the path up to its last
  slash, or \<^verbatim>\<open>.\<close> when it has none.
\<close>

definition dirname :: "string \<Rightarrow> string" where
  "dirname p =
     (if CHR ''/'' \<notin> set p then ''.''
      else rev (tl (dropWhile (\<lambda>c. c \<noteq> CHR ''/'') (rev p))))"

definition find_tests :: "string \<times> ftype \<Rightarrow> bool" where
  "find_tests e = (snd e = Regular \<and> basename (fst e) = ''go.mod'' \<and> fst e \<noteq> ''./go.mod'')"

text \<open>What \<^verbatim>\<open>find ... -exec dirname {} \;\<close> prints: a line for every entry that passes.\<close>

definition find_out :: "tree \<Rightarrow> string" where
  "find_out t =
     awk_print (map (\<lambda>e. dirname (fst e))
                  (filter find_tests (map (\<lambda>(cs, k). (find_path cs, k)) t)))"

text \<open>\<^verbatim>\<open>sed 's|^./||'\<close>, line by line: the dot of the pattern stands for any character.\<close>

fun sed_strip :: "string \<Rightarrow> string" where
  "sed_strip (c # d # rest) = (if d = CHR ''/'' then rest else c # d # rest)"
| "sed_strip l = l"

definition sed_out :: "string \<Rightarrow> string" where
  "sed_out txt = awk_print (map sed_strip (awk_records txt))"

text \<open>
  \<^verbatim>\<open>sort -u\<close> orders the lines by the collation of the locale it runs in and prints the
  first line of every run of lines that compare equal. The collation is the parameter
  \<open>coll\<close>, a key that lines are compared by; in the C locale the key is the line itself,
  compared byte by byte.
\<close>

fun uniq_run :: "(string \<Rightarrow> 'k) \<Rightarrow> string list \<Rightarrow> string list" where
  "uniq_run coll (x # y # r) =
     (if coll x = coll y then uniq_run coll (x # r) else x # uniq_run coll (y # r))"
| "uniq_run coll ls = ls"

definition sort_u :: "(string \<Rightarrow> 'k::linorder) \<Rightarrow> string list \<Rightarrow> string list" where
  "sort_u coll ls = uniq_run coll (sort_key coll ls)"

definition sort_out :: "(string \<Rightarrow> 'k::linorder) \<Rightarrow> string \<Rightarrow> string" where
  "sort_out coll txt = awk_print (sort_u coll (awk_records txt))"

definition c_locale :: "string \<Rightarrow> string" where
  "c_locale l = l"

text \<open>
  \<^verbatim>\<open>$(shell ...)\<close> removes the final newline of the output and turns every other newline
  into a blank. The recipes paste the value into \<^verbatim>\<open>for m in $(MODULES)\<close>, so the
  modules they see are the words of the value.
\<close>

definition make_shell :: "string \<Rightarrow> string" where
  "make_shell out =
     map (\<lambda>c. if c = newline then CHR '' '' else c)
       (if out \<noteq> [] \<and> last out = newline then butlast out else out)"

definition MODULES :: "(string \<Rightarrow> 'k::linorder) \<Rightarrow> tree \<Rightarrow> string list" where
  "MODULES coll t = words (make_shell (sort_out coll (sed_out (find_out t))))"

definition rel_path :: "string list \<Rightarrow> string" where
  "rel_path cs = (case cs of [] \<Rightarrow> [] | c # rest \<Rightarrow> c @ concat (map (\<lambda>d. CHR ''/'' # d) rest))"

definition wf_tree :: "tree \<Rightarrow> bool" where
  "wf_tree t =
     list_all (\<lambda>e. fst e \<noteq> [] \<and>
                  list_all (\<lambda>c. plain_component c \<and> \<not> list_ex is_space c) (fst e)) t"

definition example_tree :: tree where
  "example_tree =
     [([''go.work''], Regular), ([''Makefile''], Regular),
      ([''http''], Directory), ([''http'', ''gin''], Directory),
      ([''http'', ''gin'', ''go.mod''], Regular), ([''http'', ''gin'', ''main.go''], Regular),
      ([''http'', ''chi''], Directory), ([''http'', ''chi'', ''go.mod''], Regular),
      ([''grpc''], Directory), ([''grpc'', ''client''], Directory),
      ([''grpc'', ''client'', ''go.mod''], Regular),
      ([''grpc'', ''server''], Directory), ([''grpc'', ''server'', ''go.mod''], Regular),
      ([''db''], Directory), ([''db'', ''gorm''], Directory),
      ([''db'', ''gorm'', ''go.mod''], Regular),
      ([''internal''], Directory), ([''internal'', ''meta''], Directory),
      ([''internal'', ''meta'', ''meta.go''], Regular)]"

definition root_manifest_tree :: tree where
  "root_manifest_tree = ([''go.mod''], Regular) # example_tree"

definition blank_tree :: tree where
  "blank_tree = [([''my mod''], Directory), ([''my mod'', ''go.mod''], Regular)]"

section \<open>The per-module task runner\<close>

text \<open>
  The recipes are bash scripts. What lies outside the Makefile is a parameter: which
  directories exist, and what an external command does to the world and which status it
  returns when run in a directory. The shell keeps its working directory; the log
  records what was echoed and each external command with the directory it ran in and its
  status. Module paths and the selector are pasted by make into the text of the recipe;
  they are taken to be free of white space and of characters the shell gives a meaning
  to, so that the shell reads them as the paths they are.
\<close>

datatype event = Echo string | Ran string "string list" nat

record 'w env =
  is_dir :: "'w \<Rightarrow> string list \<Rightarrow> bool"
  exec :: "string \<Rightarrow> string list \<Rightarrow> 'w \<Rightarrow> nat \<times> 'w"

record 'w shell =
  cwd :: "string list"
  world :: 'w
  log :: "event list"

datatype cmd = Cd string | Tool string

definition echo :: "string \<Rightarrow> 'w shell \<Rightarrow> 'w shell" where
  "echo l s = s\<lparr>log := log s @ [Echo l]\<rparr>"

fun run_cmd :: "'w env \<Rightarrow> cmd \<Rightarrow> 'w shell \<Rightarrow> nat \<times> 'w shell" where
  "run_cmd E (Cd d) s =
     (case cd_target (is_dir E (world s)) (cwd s) d of
        None \<Rightarrow> (1, s)
      | Some t \<Rightarrow> (0, s\<lparr>cwd := t\<rparr>))"
| "run_cmd E (Tool t) s =
     (case exec E t (cwd s) (world s) of
        (r, w) \<Rightarrow> (r, s\<lparr>world := w, log := log s @ [Ran t (cwd s) r]\<rparr>))"

text \<open>
  A list \<^verbatim>\<open>c1 && c2 && ... && cn\<close>: it stops at the first command that fails. Under
  \<^verbatim>\<open>set -e\<close> the shell leaves only when the command that failed is the last of the
  list; the flag says so.
\<close>

fun and_list :: "'w env \<Rightarrow> cmd list \<Rightarrow> 'w shell \<Rightarrow> nat \<times> bool \<times> 'w shell" where
  "and_list E [] s = (0, False, s)"
| "and_list E [c] s = (case run_cmd E c s of (r, s') \<Rightarrow> (r, r \<noteq> 0, s'))"
| "and_list E (c # cs) s =
     (case run_cmd E c s of
        (r, s') \<Rightarrow> if r = 0 then and_list E cs s' else (r, False, s'))"

text \<open>
  \<^verbatim>\<open>( list )\<close>: the list runs in a copy of the shell, so the working directory of the
  caller is untouched; what the commands did to the world stays done.
\<close>

definition subshell :: "'w env \<Rightarrow> cmd list \<Rightarrow> 'w shell \<Rightarrow> nat \<times> 'w shell" where
  "subshell E cs s = (case and_list E cs s of (r, _, s') \<Rightarrow> (r, s'\<lparr>cwd := cwd s\<rparr>))"

text \<open>
  \<^verbatim>\<open>set -e; for m in $(MODULES); do echo "==> ... in $m"; ( cd "$m" && tools ); done\<close>
  The result lists the status of every iteration that ran. A subshell that fails makes
  the shell leave at once under \<^verbatim>\<open>set -e\<close>.
\<close>

fun for_modules_subshell ::
  "'w env \<Rightarrow> (string \<Rightarrow> string) \<Rightarrow> (string \<Rightarrow> string list) \<Rightarrow> string list \<Rightarrow> 'w shell
     \<Rightarrow> nat list \<times> 'w shell" where
  "for_modules_subshell E label tools [] s = ([], s)"
| "for_modules_subshell E label tools (m # ms) s =
     (case subshell E (Cd m # map Tool (tools m)) (echo (label m) s) of
        (r, s') \<Rightarrow>
          if r \<noteq> 0 then ([r], s')
          else (case for_modules_subshell E label tools ms s' of
                  (rs, s'') \<Rightarrow> (r # rs, s'')))"

text \<open>
  \<^verbatim>\<open>set -e; for m in $(MODULES); do echo "==> ... in $m"; cd "$m" && tools; done\<close>
  The same loop without the parentheses: the list runs in the shell itself.
\<close>

fun for_modules_inline ::
  "'w env \<Rightarrow> (string \<Rightarrow> string) \<Rightarrow> (string \<Rightarrow> string list) \<Rightarrow> string list \<Rightarrow> 'w shell
     \<Rightarrow> nat list \<times> 'w shell" where
  "for_modules_inline E label tools [] s = ([], s)"
| "for_modules_inline E label tools (m # ms) s =
     (case and_list E (Cd m # map Tool (tools m)) (echo (label m) s) of
        (r, errexit, s') \<Rightarrow>
          if errexit then ([r], s')
          else (case for_modules_inline E label tools ms s' of
                  (rs, s'') \<Rightarrow> (r # rs, s'')))"


definition banner :: "string \<Rightarrow> string \<Rightarrow> string" where
  "banner task m = ''==> '' @ task @ '' in '' @ m"

text \<open>The lines echoed, in order: a module's banner is there when its task was attempted.\<close>

fun echoes :: "event list \<Rightarrow> string list" where
  "echoes [] = []"
| "echoes (Echo l # es) = l # echoes es"
| "echoes (Ran t d r # es) = echoes es"

text \<open>The external commands that ran, each with the directory it ran in, in order.\<close>

fun ran :: "event list \<Rightarrow> (string \<times> string list) list" where
  "ran [] = []"
| "ran (Echo l # es) = ran es"
| "ran (Ran t d r # es) = (t, d) # ran es"

text \<open>Target \<^verbatim>\<open>deps\<close>, with the subshell (the first Makefile) and without (the second).\<close>

definition deps :: "'w env \<Rightarrow> string list \<Rightarrow> 'w shell \<Rightarrow> nat list \<times> 'w shell" where
  "deps E MODS s =
     for_modules_subshell E (banner ''deps'') (\<lambda>m. [''go mod download'', ''go mod tidy'']) MODS s"

definition deps_inline :: "'w env \<Rightarrow> string list \<Rightarrow> 'w shell \<Rightarrow> nat list \<times> 'w shell" where
  "deps_inline E MODS s =
     for_modules_inline E (banner ''deps'') (\<lambda>m. [''go mod download'', ''go mod tidy'']) MODS s"

text \<open>
  Targets \<^verbatim>\<open>test\<close> and \<^verbatim>\<open>build\<close>: \<^verbatim>\<open>if [ -n "$(MODULE)" ]\<close> runs the task in the
  directory named by the selector, otherwise in every discovered module. \<^verbatim>\<open>build\<close>
  first makes the build directory, before \<^verbatim>\<open>set -e\<close>.
\<close>

definition test :: "'w env \<Rightarrow> string \<Rightarrow> string list \<Rightarrow> 'w shell \<Rightarrow> nat list \<times> 'w shell" where
  "test E MODULE MODS s =
     (if MODULE \<noteq> [] then
        (case subshell E [Cd MODULE, Tool ''go test -v ./...'']
                (echo (banner ''test'' MODULE) s) of
           (r, s') \<Rightarrow> ([r], s'))
      else for_modules_subshell E (banner ''test'') (\<lambda>m. [''go test -v ./...'']) MODS s)"


text \<open>
  Worlds to run the recipes in: a checkout at \<^verbatim>\<open>/work/repo\<close>; an outside in which every
  directory exists and the commands fail in one directory only, and one whose directories
  are those of the example tree and in which every command succeeds.
\<close>

definition demo_root :: "string list" where
  "demo_root = [''work'', ''repo'']"

definition demo_shell :: "unit shell" where
  "demo_shell = \<lparr>cwd = demo_root, world = (), log = []\<rparr>"

definition failing_env :: "string list \<Rightarrow> unit env" where
  "failing_env bad =
     \<lparr>is_dir = (\<lambda>w d. True), exec = (\<lambda>t d w. (if d = bad then 1 else 0, w))\<rparr>"

definition repo_env :: "unit env" where
  "repo_env =
     \<lparr>is_dir = (\<lambda>w d. d = demo_root \<or>
                  list_ex (\<lambda>e. snd e = Directory \<and> d = demo_root @ fst e) example_tree),
      exec = (\<lambda>t d w. (0, w))\<rparr>"

section \<open>Coverage files\<close>

text \<open>
  \<^verbatim>\<open>$(echo $m | tr '/' '_')\<close> for a module path without blanks or glob characters.
  The first Makefile passes \<^verbatim>\<open>-coverprofile="$COVER_ABS/<name>.out"\<close> with
  \<^verbatim>\<open>COVER_ABS="$(CURDIR)/coverage"\<close>, the second
  \<^verbatim>\<open>-coverprofile="../coverage/<name>.out"\<close>. \<^verbatim>\<open>go test\<close> takes a relative profile
  path from the directory it is started in.
\<close>

definition tr_slash :: "string \<Rightarrow> string" where
  "tr_slash m = map (\<lambda>c. if c = CHR ''/'' then CHR ''_'' else c) m"

definition coverprofile_abs :: "string list \<Rightarrow> string \<Rightarrow> string" where
  "coverprofile_abs curdir m = abs_path curdir @ ''/coverage/'' @ tr_slash m @ ''.out''"

definition coverprofile_rel :: "string \<Rightarrow> string" where
  "coverprofile_rel m = ''../coverage/'' @ tr_slash m @ ''.out''"

definition cover_cmd :: "string \<Rightarrow> string" where
  "cover_cmd profile = ''go test -v -coverprofile='' @ profile @ '' ./...''"

text \<open>
  With a selector both recipes start with \<^verbatim>\<open>m=$(MODULE);\<close>, the selector pasted without
  quotes. The shell takes the text up to the first blank as the value. When nothing but
  blanks follows, \<open>m\<close> is set to it; otherwise what follows is a command, run with \<open>m\<close>
  in its environment only, and \<open>m\<close> stays unset in the shell. (For a selector made of
  the characters above and blanks.)
\<close>

definition is_blank :: "char \<Rightarrow> bool" where
  "is_blank c = (c = CHR '' '' \<or> c = CHR 0x09)"

definition unwords :: "string list \<Rightarrow> string" where
  "unwords ws = (case ws of [] \<Rightarrow> [] | w # rest \<Rightarrow> w @ concat (map (\<lambda>v. CHR '' '' # v) rest))"

definition assign_m :: "'w env \<Rightarrow> string \<Rightarrow> 'w shell \<Rightarrow> nat \<times> string \<times> 'w shell" where
  "assign_m E MODULE s =
     (case words (dropWhile (\<lambda>c. \<not> is_blank c) MODULE) of
        [] \<Rightarrow> (0, takeWhile (\<lambda>c. \<not> is_blank c) MODULE, s)
      | c # args \<Rightarrow>
          (case run_cmd E (Tool (unwords (c # args))) s of
             (r, s') \<Rightarrow> (r, [], s')))"

definition test_coverage ::
  "'w env \<Rightarrow> string \<Rightarrow> string list \<Rightarrow> 'w shell \<Rightarrow> nat list \<times> 'w shell" where
  "test_coverage E MODULE MODS s =
     (let curdir = cwd s;
          s0 = snd (run_cmd E (Tool (''mkdir -p '' @ abs_path curdir @ ''/coverage'')) s) in
      if MODULE \<noteq> [] then
        (case assign_m E MODULE s0 of
           (r0, m, s1) \<Rightarrow>
             if r0 \<noteq> 0 then ([r0], s1)
             else (case subshell E [Cd m, Tool (cover_cmd (coverprofile_abs curdir m))]
                          (echo (banner ''coverage'' m) s1) of
                     (r, s') \<Rightarrow> ([r], s')))
      else for_modules_subshell E (banner ''coverage'')
             (\<lambda>m. [cover_cmd (coverprofile_abs curdir m)]) MODS s0)"

text \<open>
  The second Makefile's \<^verbatim>\<open>test-coverage\<close>: no subshell, the profile relative to the
  module. With a selector the list \<^verbatim>\<open>cd "$m" && go test ...\<close> is the last command of
  the recipe.
\<close>

definition test_coverage_inline ::
  "'w env \<Rightarrow> string \<Rightarrow> string list \<Rightarrow> 'w shell \<Rightarrow> nat list \<times> 'w shell" where
  "test_coverage_inline E MODULE MODS s =
     (let s0 = snd (run_cmd E (Tool ''mkdir -p coverage'') s) in
      if MODULE \<noteq> [] then
        (case assign_m E MODULE s0 of
           (r0, m, s1) \<Rightarrow>
             if r0 \<noteq> 0 then ([r0], s1)
             else (case and_list E [Cd m, Tool (cover_cmd (coverprofile_rel m))]
                          (echo (banner ''coverage'' m) s1) of
                     (r, _, s') \<Rightarrow> ([r], s')))
      else for_modules_inline E (banner ''coverage'')
             (\<lambda>m. [cover_cmd (coverprofile_rel m)]) MODS s0)"

text \<open>
  The file the coverage profile of module \<open>m\<close> lands in when the recipe starts in
  \<open>curdir\<close> and selects \<open>m\<close>: the profile argument, taken from the module's directory.
\<close>

definition coverage_file :: "string list \<Rightarrow> string \<Rightarrow> string list" where
  "coverage_file curdir m = resolve (resolve curdir m) (coverprofile_abs curdir m)"

definition coverage_file_inline :: "string list \<Rightarrow> string \<Rightarrow> string list" where
  "coverage_file_inline curdir m = resolve (resolve curdir m) (coverprofile_rel m)"

section \<open>Creating a module and registering it in modman.toml\<close>

text \<open>
  The recipe of \<^verbatim>\<open>module-create\<close> (lines 171 to 218 of the first Makefile). Its comment
  lines do not end in a backslash, so they cut the recipe into five recipe lines; make
  runs each in a shell of its own, one after the other, and stops at the first that leaves
  with a status other than 0. Only the first has \<^verbatim>\<open>set -e\<close>, and the shell variables it
  sets (\<^verbatim>\<open>BASE_MOD\<close>, \<^verbatim>\<open>MOD_DIR\<close>) are unset in the later ones, where \<^verbatim>\<open>$$MOD_DIR\<close> is the
  empty string.

  What lies outside is a parameter: the tests \<^verbatim>\<open>[ -e p ]\<close>, \<^verbatim>\<open>[ -d p ]\<close>, \<^verbatim>\<open>[ -f p ]\<close>;
  the external commands, each with its status, what it prints and what it does to the
  world; \<^verbatim>\<open>grep -E\<close> with its pattern on modman.toml (status 0 when a line matches, 1 when
  none does, 2 when it cannot read the file or the pattern); and writing a file through a
  redirection. modman.toml itself is kept as its bytes (\<open>None\<close> when the file is
  missing) and is taken to be writable and touched by nothing but the recipe. \<open>said\<close> is
  what the recipe echoes.
\<close>

definition dquote :: char where
  "dquote = CHR 0x22"

definition squote :: char where
  "squote = CHR 0x27"

definition bslash :: char where
  "bslash = CHR 0x5C"

record 'w mc_env =
  mc_test :: "string \<Rightarrow> string \<Rightarrow> 'w \<Rightarrow> bool"
  mc_run :: "string \<Rightarrow> 'w \<Rightarrow> nat \<times> string \<times> 'w"
  mc_grep :: "string \<Rightarrow> string option \<Rightarrow> nat"
  mc_write :: "string \<Rightarrow> string \<Rightarrow> 'w \<Rightarrow> nat \<times> 'w"

record 'w registry =
  outside :: 'w
  modman :: "string option"
  said :: "string list"

definition say :: "string list \<Rightarrow> 'w registry \<Rightarrow> 'w registry" where
  "say ls s = s\<lparr>said := said s @ ls\<rparr>"






text \<open>
  Fourth recipe line (202 to 212), the registration:
  \<^verbatim>\<open>if ! grep -E "^[[:space:]]*\[modules\.\"$(MODULE)\"\]" modman.toml >/dev/null 2>&1; then
    echo "Updating modman.toml with module $(MODULE)";
    { echo "    [modules.\"$(MODULE)\"]"; echo "        no_tag = false";
      echo "        pre_release=\"\""; } >> modman.toml;
  else echo "modman.toml already contains module $(MODULE); skipping update"; fi\<close>
  The module path is put into the pattern as it is, so \<^verbatim>\<open>grep\<close> reads it as a regular
  expression.
\<close>

definition entry_header :: "string \<Rightarrow> string" where
  "entry_header M = ''[modules.'' @ [dquote] @ M @ [dquote] @ '']''"

definition entry_pattern :: "string \<Rightarrow> string" where
  "entry_pattern M =
     ''^[[:space:]]*'' @ [bslash] @ ''[modules'' @ [bslash] @ ''.'' @ [dquote] @ M @ [dquote] @
     [bslash] @ '']''"

definition new_entry :: "string \<Rightarrow> string list" where
  "new_entry M =
     [''    '' @ entry_header M,
      ''        no_tag = false'',
      ''        pre_release='' @ [dquote, dquote]]"

definition content :: "string option \<Rightarrow> string" where
  "content f = (case f of None \<Rightarrow> [] | Some c \<Rightarrow> c)"

definition register_module :: "'w mc_env \<Rightarrow> string \<Rightarrow> 'w registry \<Rightarrow> nat \<times> 'w registry" where
  "register_module E M s =
     (if mc_grep E (entry_pattern M) (modman s) \<noteq> 0 then
        (0, say [''Updating modman.toml with module '' @ M]
              (s\<lparr>modman := Some (content (modman s) @ awk_print (new_entry M))\<rparr>))
      else
        (0, say [''modman.toml already contains module '' @ M @ ''; skipping update''] s))"

text \<open>Fifth recipe line (213 to 218): the changelog entry.\<close>

definition changelog_line :: "'w mc_env \<Rightarrow> string \<Rightarrow> 'w registry \<Rightarrow> nat \<times> 'w registry" where
  "changelog_line E M s =
     (case mc_run E ''command -v changelog'' (outside s) of
        (r, _, w) \<Rightarrow>
          if r \<noteq> 0 then
            (1, say [''changelog CLI not found. Run '' @ [squote] @ ''make install-tools'' @
                     [squote] @ '' to install it.''] (s\<lparr>outside := w\<rparr>))
          else
            (case mc_run E (''changelog create -ni -r -t release -d v1.0.0 '' @ M) w of
               (r', _, w') \<Rightarrow>
                 (r', say [''==> creating default changelog entry for '' @ M @ '': v1.0.0'']
                        (s\<lparr>outside := w'\<rparr>))))"




text \<open>
  How \<^verbatim>\<open>grep -E\<close> answers for such a module path: a line matches when, after its leading
  white space, it starts with the header of the module. \<^verbatim>\<open>grep\<close> reads a last line that
  lacks its newline as a line, and leaves with status 2 when modman.toml is missing.
\<close>

definition grep_literal :: "string \<Rightarrow> string option \<Rightarrow> nat" where
  "grep_literal M f =
     (case f of
        None \<Rightarrow> 2
      | Some txt \<Rightarrow>
          if list_ex (\<lambda>l. prefix (entry_header M) (dropWhile is_space l)) (awk_records txt)
          then 0 else 1)"

text \<open>
  An outside in which every test on a path is false, every external command leaves with
  status 0 and prints nothing, and \<^verbatim>\<open>grep\<close> reads the module path \<^verbatim>\<open>cache/mem\<close> as it is
  written. \<open>empty_manifest\<close> is the recipe's state before anything is echoed, with an
  empty modman.toml.
\<close>

definition quiet_outside :: "unit mc_env" where
  "quiet_outside =
     \<lparr>mc_test = (\<lambda>flag path w. False),
      mc_run = (\<lambda>cmd w. (0, [], w)),
      mc_grep = (\<lambda>pat f. if pat = entry_pattern ''cache/mem'' then grep_literal ''cache/mem'' f else 2),
      mc_write = (\<lambda>path txt w. (0, w))\<rparr>"


section \<open>Auxiliary facts\<close>

subsection \<open>Facts about records\<close>

lemma awk_records_line:
  "newline \<notin> set l \<Longrightarrow> awk_records (l @ newline # cs) = l # awk_records cs"
  by (induction l) auto

lemma awk_records_print:
  "list_all (\<lambda>l. newline \<notin> set l) ls \<Longrightarrow> awk_records (awk_print ls) = ls"
  by (induction ls) (auto simp: awk_print_def awk_records_line)

lemma awk_print_append: "awk_print (xs @ ys) = awk_print xs @ awk_print ys"
  by (simp add: awk_print_def)

lemma awk_print_inj:
  "list_all (\<lambda>l. newline \<notin> set l) xs \<Longrightarrow> list_all (\<lambda>l. newline \<notin> set l) ys \<Longrightarrow>
   awk_print xs = awk_print ys \<Longrightarrow> xs = ys"
  by (metis awk_records_print)

subsection \<open>Facts about the awk program\<close>

lemma awk_prog_append:
  "awk_prog b e sk (xs @ ys) = awk_prog b e sk xs @ awk_prog b e (awk_skip b e sk xs) ys"
  by (induction xs arbitrary: sk) auto


lemma awk_prog_no_markers:
  "b \<notin> set xs \<Longrightarrow> e \<notin> set xs \<Longrightarrow> awk_prog b e False xs = xs"
  by (induction xs) auto

lemma awk_skip_no_markers:
  "b \<notin> set xs \<Longrightarrow> e \<notin> set xs \<Longrightarrow> awk_skip b e sk xs = sk"
  by (induction xs) auto

lemma awk_prog_skipping:
  "e \<notin> set xs \<Longrightarrow> awk_prog b e True xs = []"
  by (induction xs) auto

lemma awk_skip_skipping:
  "e \<notin> set xs \<Longrightarrow> awk_skip b e True xs = True"
  by (induction xs) auto

lemma awk_prog_drops_markers:
  "b \<notin> set (awk_prog b e sk xs) \<and> e \<notin> set (awk_prog b e sk xs)"
  by (induction xs arbitrary: sk) auto

lemma awk_prog_subseq: "subseq (awk_prog b e sk xs) xs"
  by (induction xs arbitrary: sk) auto


lemma markers_differ: "MARK_BEGIN \<noteq> MARK_END"
  by (simp add: MARK_BEGIN_def MARK_END_def)





lemma unmakerelative_text_lines:
  "list_all (\<lambda>l. newline \<notin> set l) C \<Longrightarrow>
   unmakerelative_text (awk_print C) = awk_print (unmakerelative_lines C)"
  by (simp add: unmakerelative_text_def awk_records_print)



lemma unmakerelative_lines_block:
  "MARK_END \<notin> set mid \<Longrightarrow>
   unmakerelative_lines (pre @ MARK_BEGIN # mid @ MARK_END # post)
     = unmakerelative_lines pre @ unmakerelative_lines post"
  using markers_differ
  by (simp add: unmakerelative_lines_def awk_prog_append awk_prog_skipping awk_skip_skipping)

lemma unmakerelative_lines_no_marker_left:
  "MARK_BEGIN \<notin> set (unmakerelative_lines X) \<and> MARK_END \<notin> set (unmakerelative_lines X)"
  by (simp add: unmakerelative_lines_def awk_prog_drops_markers)

lemma round_trip_lines:
  assumes "MARK_BEGIN \<notin> set C" "MARK_END \<notin> set C" "MARK_END \<notin> set ds"
  shows "unmakerelative_lines (makerelative k ds C) = C"
proof -
  have tk: "MARK_BEGIN \<notin> set (take k C)" "MARK_END \<notin> set (take k C)"
    using assms by (auto dest: in_set_takeD)
  have dr: "MARK_BEGIN \<notin> set (drop k C)" "MARK_END \<notin> set (drop k C)"
    using assms by (auto dest: in_set_dropD)
  have "unmakerelative_lines (makerelative k ds C) = take k C @ drop k C"
    using markers_differ assms(3)
    by (simp add: unmakerelative_lines_def makerelative_def awk_prog_append
        awk_prog_no_markers [OF tk] awk_skip_no_markers [OF tk]
        awk_prog_skipping awk_skip_skipping awk_prog_no_markers [OF dr])
  then show ?thesis by simp
qed

lemma markers_have_no_newline: "newline \<notin> set MARK_BEGIN \<and> newline \<notin> set MARK_END"
  by (simp add: newline_def MARK_BEGIN_def MARK_END_def)

lemma makerelative_lines_ok:
  "list_all (\<lambda>l. newline \<notin> set l) (C @ ds) \<Longrightarrow>
   list_all (\<lambda>l. newline \<notin> set l) (makerelative k ds C)"
  using markers_have_no_newline
  by (auto simp: makerelative_def list_all_iff dest: in_set_takeD in_set_dropD)

subsection \<open>Facts about discovery\<close>

lemma find_path_snoc: "find_path (cs @ [c]) = find_path cs @ CHR ''/'' # c"
  by (simp add: find_path_def)

lemma takeWhile_no_slash:
  "CHR ''/'' \<notin> set c \<Longrightarrow> takeWhile (\<lambda>x. x \<noteq> CHR ''/'') (rev c) = rev c"
  by (auto simp: takeWhile_eq_all_conv)

lemma dropWhile_no_slash:
  "CHR ''/'' \<notin> set c \<Longrightarrow> dropWhile (\<lambda>x. x \<noteq> CHR ''/'') (rev c @ CHR ''/'' # q) = CHR ''/'' # q"
  by (auto simp: dropWhile_append3)

lemma basename_snoc: "CHR ''/'' \<notin> set c \<Longrightarrow> basename (p @ CHR ''/'' # c) = c"
  by (simp add: basename_def takeWhile_tail takeWhile_no_slash)

lemma dirname_snoc: "CHR ''/'' \<notin> set c \<Longrightarrow> dirname (p @ CHR ''/'' # c) = p"
  by (simp add: dirname_def dropWhile_no_slash)

lemma sed_strip_find_path: "dir \<noteq> [] \<Longrightarrow> sed_strip (find_path dir) = rel_path dir"
  by (cases dir) (simp_all add: find_path_def rel_path_def)

lemma find_path_length: "dir \<noteq> [] \<Longrightarrow> 2 \<le> length (find_path dir)"
  by (cases dir) (simp_all add: find_path_def)

lemma find_tests_entry:
  assumes "cs \<noteq> []" and "list_all plain_component cs"
  shows "find_tests (find_path cs, k)
           = (k = Regular \<and> last cs = ''go.mod'' \<and> butlast cs \<noteq> [])"
proof -
  obtain d c where cs: "cs = d @ [c]"
    using assms(1) by (metis append_butlast_last_id)
  have c: "CHR ''/'' \<notin> set c"
    using assms(2) by (simp add: cs plain_component_def)
  have base: "basename (find_path (d @ [c])) = c"
    using c by (simp add: find_path_snoc basename_snoc)
  show ?thesis
  proof (cases "d = []")
    case True
    have "find_path [c] = ''./go.mod'' \<longleftrightarrow> c = ''go.mod''"
      by (simp add: find_path_def)
    then show ?thesis
      using True base by (simp add: find_tests_def cs)
  next
    case False
    have "find_path (d @ [c]) \<noteq> ''./go.mod''" if "c = ''go.mod''"
    proof
      assume eq: "find_path (d @ [c]) = ''./go.mod''"
      have "length (find_path (d @ [c])) = length (find_path d) + 7"
        by (simp add: find_path_snoc that)
      moreover have "length (find_path (d @ [c])) = 8"
        by (simp add: eq)
      ultimately show False
        using find_path_length [OF False] by simp
    qed
    then show ?thesis
      using False base by (auto simp: find_tests_def cs)
  qed
qed

lemma modules_entry:
  assumes "dir \<noteq> []"
  shows "sed_strip (dirname (find_path (dir @ [''go.mod'']))) = rel_path dir"
  using assms by (simp add: find_path_snoc dirname_snoc sed_strip_find_path)

lemma rel_path_not_dot:
  assumes "dir \<noteq> []" and "list_all plain_component dir"
  shows "rel_path dir \<noteq> ''.'' \<and> rel_path dir \<noteq> []"
proof (cases dir)
  case Nil
  with assms show ?thesis by simp
next
  case (Cons c rest)
  then have c: "c \<noteq> []" "c \<noteq> ''.''"
    using assms(2) by (simp_all add: plain_component_def)
  show ?thesis
  proof (cases rest)
    case Nil
    then show ?thesis using c Cons by (simp add: rel_path_def)
  next
    case (Cons d rest')
    have "2 \<le> length (rel_path dir)"
      using c(1) \<open>dir = c # rest\<close> Cons
      by (cases c) (simp_all add: rel_path_def)
    then show ?thesis by auto
  qed
qed


lemma cut_at_nonempty: "cut_at P a \<noteq> []"
  by (induction a) (auto split: list.splits)

lemma cut_at_append: "P c \<Longrightarrow> cut_at P (a @ c # b) = cut_at P a @ cut_at P b"
  using cut_at_nonempty [of P]
  by (induction a) (auto split: list.splits)

lemma cut_at_none: "\<not> list_ex P a \<Longrightarrow> cut_at P a = [a]"
  by (induction a) auto

lemma cut_at_joined:
  "P c \<Longrightarrow> list_all (\<lambda>l. \<not> list_ex P l) ls \<Longrightarrow>
   cut_at P (concat (map (\<lambda>l. l @ [c]) ls) @ rest) = ls @ cut_at P rest"
proof (induction ls)
  case Nil
  then show ?case by simp
next
  case (Cons l ls)
  have "cut_at P (l @ c # (concat (map (\<lambda>l. l @ [c]) ls) @ rest))
      = cut_at P l @ cut_at P (concat (map (\<lambda>l. l @ [c]) ls) @ rest)"
    using Cons.prems(1) by (rule cut_at_append)
  then show ?case
    using Cons by (simp add: cut_at_none)
qed

lemma is_space_newline: "is_space newline" "is_space (CHR '' '')"
  by (simp_all add: is_space_def newline_def)

lemma no_space_no_newline: "\<not> list_ex is_space l \<Longrightarrow> newline \<notin> set l"
  using is_space_newline(1) by (auto simp: list_ex_iff)

lemma map_blank_line:
  "newline \<notin> set l \<Longrightarrow> map (\<lambda>c. if c = newline then CHR '' '' else c) l = l"
  by (induction l) auto

lemma map_blank_print:
  "list_all (\<lambda>l. newline \<notin> set l) ls \<Longrightarrow>
   map (\<lambda>c. if c = newline then CHR '' '' else c) (awk_print ls)
     = concat (map (\<lambda>l. l @ [CHR '' '']) ls)"
  by (induction ls) (auto simp: awk_print_def map_blank_line)

lemma words_make_shell:
  assumes "list_all (\<lambda>l. l \<noteq> [] \<and> \<not> list_ex is_space l) ls"
  shows "words (make_shell (awk_print ls)) = ls"
proof (cases ls rule: rev_cases)
  case Nil
  then show ?thesis by (simp add: make_shell_def awk_print_def words_def)
next
  case (snoc xs x)
  have ok: "list_all (\<lambda>l. \<not> list_ex is_space l) xs" "\<not> list_ex is_space x"
      and ne: "list_all (\<lambda>l. l \<noteq> []) (xs @ [x])"
    using assms by (auto simp: snoc list_all_iff)
  have nl: "list_all (\<lambda>l. newline \<notin> set l) xs" "newline \<notin> set x"
    using ok no_space_no_newline by (auto simp: list_all_iff)
  have ms: "make_shell (Y @ [newline]) = map (\<lambda>c. if c = newline then CHR '' '' else c) Y"
    for Y
    by (simp add: make_shell_def)
  have "awk_print ls = (awk_print xs @ x) @ [newline]"
    by (simp add: snoc awk_print_def)
  then have "make_shell (awk_print ls)
      = map (\<lambda>c. if c = newline then CHR '' '' else c) (awk_print xs @ x)"
    by (simp only: ms)
  also have "\<dots> = concat (map (\<lambda>l. l @ [CHR '' '']) xs) @ x"
    using nl by (simp add: map_blank_print map_blank_line)
  finally have "cut_at is_space (make_shell (awk_print ls)) = xs @ [x]"
    using cut_at_joined [OF is_space_newline(2) ok(1), of x] ok(2)
    by (simp add: cut_at_none)
  then show ?thesis
    using ne by (simp add: words_def snoc list_all_iff filter_id_conv)
qed

lemma uniq_run_subset: "set (uniq_run f xs) \<subseteq> set xs"
  by (induction f xs rule: uniq_run.induct) auto

lemma uniq_run_keys: "f ` set (uniq_run f xs) = f ` set xs"
  by (induction f xs rule: uniq_run.induct) auto

lemma uniq_run_sorted:
  "sorted (map f xs) \<Longrightarrow> sorted (map f (uniq_run f xs)) \<and> distinct (map f (uniq_run f xs))"
proof (induction f xs rule: uniq_run.induct)
  case (1 f x y r)
  show ?case
  proof (cases "f x = f y")
    case True
    then show ?thesis using 1 by auto
  next
    case False
    have s: "sorted (map f (y # r))" using 1(3) by simp
    have "f x < f z" if "z \<in> set (y # r)" for z
      using 1(3) False that by (auto simp: less_le)
    then have "f x \<notin> f ` set (uniq_run f (y # r))" "\<forall>z\<in>set (uniq_run f (y # r)). f x \<le> f z"
      unfolding uniq_run_keys using uniq_run_subset [of f "y # r"] by (auto simp: less_le)
    then show ?thesis
      using 1(2) [OF False s] False by simp
  qed
qed simp_all

lemma sort_u_props:
  "sorted (map coll (sort_u coll ls)) \<and> distinct (map coll (sort_u coll ls)) \<and>
   set (sort_u coll ls) \<subseteq> set ls \<and> coll ` set (sort_u coll ls) = coll ` set ls"
  using uniq_run_sorted [of coll "sort_key coll ls"] uniq_run_subset [of coll "sort_key coll ls"]
    uniq_run_keys [of coll "sort_key coll ls"]
  by (simp add: sort_u_def)

lemma sort_u_set: "inj coll \<Longrightarrow> set (sort_u coll ls) = set ls"
  using sort_u_props [of coll ls] by (auto simp: inj_def image_iff set_eq_iff) metis

lemma find_path_chars: "set (find_path cs) \<subseteq> insert (CHR ''.'') (insert (CHR ''/'') (\<Union> (set ` set cs)))"
  by (auto simp: find_path_def)

lemma rel_path_chars: "set (rel_path cs) \<subseteq> insert (CHR ''/'') (\<Union> (set ` set cs))"
  by (cases cs) (auto simp: rel_path_def)

lemma not_space_dot_slash: "\<not> is_space (CHR ''.'')" "\<not> is_space (CHR ''/'')"
  by (simp_all add: is_space_def)



lemma find_path_no_space:
  "list_all (\<lambda>c. \<not> list_ex is_space c) cs \<Longrightarrow> \<not> list_ex is_space (find_path cs)"
  using find_path_chars [of cs] not_space_dot_slash
  by (auto simp: list_ex_iff list_all_iff)

lemma rel_path_no_space:
  "list_all (\<lambda>c. \<not> list_ex is_space c) cs \<Longrightarrow> \<not> list_ex is_space (rel_path cs)"
  using rel_path_chars [of cs] not_space_dot_slash
  by (auto simp: list_ex_iff list_all_iff)

lemma passing_entry:
  assumes "wf_tree t"
    and "e \<in> set (filter find_tests (map (\<lambda>(cs, k). (find_path cs, k)) t))"
  shows "\<exists>dir. dir \<noteq> [] \<and> (dir @ [''go.mod''], Regular) \<in> set t \<and>
           dirname (fst e) = find_path dir \<and> sed_strip (dirname (fst e)) = rel_path dir \<and>
           \<not> list_ex is_space (find_path dir) \<and> \<not> list_ex is_space (rel_path dir) \<and>
           rel_path dir \<noteq> [] \<and> rel_path dir \<noteq> ''.''"
proof -
  from assms(2) obtain cs k where e: "(cs, k) \<in> set t" "e = (find_path cs, k)"
      and ft: "find_tests (find_path cs, k)"
    by auto
  have wf: "cs \<noteq> []" "list_all plain_component cs" "list_all (\<lambda>c. \<not> list_ex is_space c) cs"
    using assms(1) e(1) by (auto simp: wf_tree_def list_all_iff)
  from find_tests_entry [OF wf(1,2)] ft
  have k: "k = Regular" "last cs = ''go.mod''" "butlast cs \<noteq> []" by simp_all
  have cs: "cs = butlast cs @ [''go.mod'']"
    using wf(1) k(2) by (metis append_butlast_last_id)
  have pl: "list_all plain_component (butlast cs)"
      "list_all (\<lambda>c. \<not> list_ex is_space c) (butlast cs)"
    using wf(2,3) by (auto simp: list_all_iff dest: in_set_butlastD)
  have d: "dirname (find_path cs) = find_path (butlast cs)"
    by (subst cs) (simp add: find_path_snoc dirname_snoc)
  show ?thesis
  proof (intro exI [of _ "butlast cs"] conjI)
    show "butlast cs \<noteq> []" by (rule k(3))
    show "(butlast cs @ [''go.mod''], Regular) \<in> set t"
      using e(1) k(1) cs by simp
    show "dirname (fst e) = find_path (butlast cs)"
      using d by (simp add: e(2))
    show "sed_strip (dirname (fst e)) = rel_path (butlast cs)"
      using d k(3) by (simp add: e(2) sed_strip_find_path)
    show "\<not> list_ex is_space (find_path (butlast cs))"
      using pl(2) by (rule find_path_no_space)
    show "\<not> list_ex is_space (rel_path (butlast cs))"
      using pl(2) by (rule rel_path_no_space)
    show "rel_path (butlast cs) \<noteq> []" "rel_path (butlast cs) \<noteq> ''.''"
      using rel_path_not_dot [OF k(3) pl(1)] by simp_all
  qed
qed

lemma MODULES_lines:
  assumes "wf_tree t"
  shows "MODULES coll t =
           sort_u coll (map (\<lambda>e. sed_strip (dirname (fst e)))
             (filter find_tests (map (\<lambda>(cs, k). (find_path cs, k)) t)))"
proof -
  let ?F = "filter find_tests (map (\<lambda>(cs, k). (find_path cs, k)) t)"
  let ?D = "map (\<lambda>e. dirname (fst e)) ?F"
  let ?L = "map (\<lambda>e. sed_strip (dirname (fst e))) ?F"
  have "list_all (\<lambda>l. newline \<notin> set l) ?D"
    using passing_entry [OF assms] no_space_no_newline
    by (fastforce simp: list_all_iff)
  then have 1: "awk_records (find_out t) = ?D"
    unfolding find_out_def by (rule awk_records_print)
  have okL: "list_all (\<lambda>l. l \<noteq> [] \<and> \<not> list_ex is_space l) ?L"
    using passing_entry [OF assms] by (fastforce simp: list_all_iff)
  then have "list_all (\<lambda>l. newline \<notin> set l) ?L"
    using no_space_no_newline by (auto simp: list_all_iff)
  then have 2: "awk_records (sed_out (find_out t)) = ?L"
    unfolding sed_out_def 1 by (simp add: awk_records_print comp_def)
  have "list_all (\<lambda>l. l \<noteq> [] \<and> \<not> list_ex is_space l) (sort_u coll ?L)"
    using okL sort_u_props [of coll ?L] unfolding list_all_iff by blast
  then show ?thesis
    unfolding MODULES_def sort_out_def 2 by (rule words_make_shell)
qed

lemma set_MODULES:
  assumes "wf_tree t" and "inj coll"
  shows "set (MODULES coll t)
           = rel_path ` {dir. dir \<noteq> [] \<and> (dir @ [''go.mod''], Regular) \<in> set t}"
    (is "?L = ?R")
proof (intro set_eqI iffI)
  fix x assume "x \<in> ?L"
  then have "x \<in> (\<lambda>e. sed_strip (dirname (fst e))) `
      set (filter find_tests (map (\<lambda>(cs, k). (find_path cs, k)) t))"
    unfolding MODULES_lines [OF assms(1)] sort_u_set [OF assms(2)] set_map .
  then obtain e where e: "e \<in> set (filter find_tests (map (\<lambda>(cs, k). (find_path cs, k)) t))"
      and x: "x = sed_strip (dirname (fst e))"
    by (rule imageE)
  from passing_entry [OF assms(1) e] x show "x \<in> ?R"
    by auto
next
  fix x assume "x \<in> ?R"
  then obtain dir where d: "dir \<noteq> []" "(dir @ [''go.mod''], Regular) \<in> set t" "x = rel_path dir"
    by auto
  have wf: "dir @ [''go.mod''] \<noteq> []" "list_all plain_component (dir @ [''go.mod''])"
    using assms(1) d(2) by (auto simp: wf_tree_def list_all_iff)
  have ft: "find_tests (find_path (dir @ [''go.mod'']), Regular)"
    using find_tests_entry [OF wf] d(1) by simp
  have "(find_path (dir @ [''go.mod'']), Regular)
      \<in> set (filter find_tests (map (\<lambda>(cs, k). (find_path cs, k)) t))"
    using ft d(2) by (auto simp: image_iff intro!: bexI [of _ "(dir @ [''go.mod''], Regular)"])
  then have "sed_strip (dirname (fst (find_path (dir @ [''go.mod'']), Regular)))
      \<in> set (MODULES coll t)"
    unfolding MODULES_lines [OF assms(1)] sort_u_set [OF assms(2)] set_map by (rule imageI)
  then show "x \<in> ?L"
    using d(3) modules_entry [OF d(1)] by simp
qed

lemma sorted_MODULES:
  assumes "wf_tree t"
  shows "sorted (map coll (MODULES coll t)) \<and> distinct (MODULES coll t)"
  using sort_u_props [of coll] unfolding MODULES_lines [OF assms]
  by (auto simp: distinct_map)

subsection \<open>Facts about the shell\<close>

lemma echoes_append: "echoes (xs @ ys) = echoes xs @ echoes ys"
  by (induction xs rule: echoes.induct) auto

lemma ran_append: "ran (xs @ ys) = ran xs @ ran ys"
  by (induction xs rule: ran.induct) auto

lemma cd_walk_walk: "cd_walk D dir cs = Some d \<Longrightarrow> d = walk dir cs \<and> D d"
  by (induction cs arbitrary: dir) (auto split: if_splits)

lemma cd_target_resolve: "cd_target D dir p = Some d \<Longrightarrow> d = resolve dir p \<and> D d"
  unfolding cd_target_def resolve_def by (rule cd_walk_walk)

lemma cd_walk_plain:
  "list_all plain_component cs \<Longrightarrow>
   cd_walk D dir cs = (if D (dir @ cs) then Some (dir @ cs) else None)"
  by (induction cs arbitrary: dir) (auto simp: plain_component_def)

lemma run_cmd_echoes: "run_cmd E c s = (r, s') \<Longrightarrow> echoes (log s') = echoes (log s)"
  by (cases c) (auto simp: echoes_append split: if_splits prod.splits option.splits)

lemma and_list_echoes:
  "and_list E cs s = (r, b, s') \<Longrightarrow> echoes (log s') = echoes (log s)"
proof (induction E cs s arbitrary: r b s' rule: and_list.induct)
  case (1 E s)
  then show ?case by simp
next
  case (2 E c s)
  then show ?case by (auto split: prod.splits dest: run_cmd_echoes)
next
  case (3 E c d ds s)
  then show ?case
    by (auto split: prod.splits if_splits dest: run_cmd_echoes)
qed

lemma and_list_tools:
  "and_list E (map Tool ts) s = (r, b, s') \<Longrightarrow>
   cwd s' = cwd s \<and>
   (\<exists>k\<le>length ts. ran (log s') = ran (log s) @ map (\<lambda>t. (t, cwd s)) (take k ts))"
proof (induction ts arbitrary: s r b s')
  case Nil
  then show ?case by simp
next
  case (Cons t ts)
  obtain r1 w1 where ex: "exec E t (cwd s) (world s) = (r1, w1)"
    by (cases "exec E t (cwd s) (world s)")
  define s1 where "s1 = s\<lparr>world := w1, log := log s @ [Ran t (cwd s) r1]\<rparr>"
  have s1: "cwd s1 = cwd s" "ran (log s1) = ran (log s) @ [(t, cwd s)]"
    by (simp_all add: s1_def ran_append)
  show ?case
  proof (cases "ts = [] \<or> r1 \<noteq> 0")
    case True
    then have "s' = s1"
      using Cons.prems ex by (cases ts) (auto simp: s1_def split: if_splits)
    then show ?thesis
      using s1 by (auto intro!: exI [of _ 1])
  next
    case False
    then obtain u us where ts: "ts = u # us" by (cases ts) auto
    from False Cons.prems ex have "and_list E (map Tool ts) s1 = (r, b, s')"
      by (simp add: ts s1_def)
    from Cons.IH [OF this] obtain k where
      k: "cwd s' = cwd s1" "k \<le> length ts"
        "ran (log s') = ran (log s1) @ map (\<lambda>t. (t, cwd s1)) (take k ts)"
      by blast
    then show ?thesis
      using s1 by (auto intro!: exI [of _ "Suc k"])
  qed
qed

lemma subshell_body:
  assumes "subshell E (Cd m # map Tool ts) s = (r, s')"
  shows "cwd s' = cwd s"
    and "echoes (log s') = echoes (log s)"
    and "\<exists>k\<le>length ts.
           ran (log s') = ran (log s) @ map (\<lambda>t. (t, resolve (cwd s) m)) (take k ts)"
proof -
  obtain b s2 where al: "and_list E (Cd m # map Tool ts) s = (r, b, s2)" and s': "s' = s2\<lparr>cwd := cwd s\<rparr>"
    using assms by (auto simp: subshell_def split: prod.splits)
  show "cwd s' = cwd s" by (simp add: s')
  show "echoes (log s') = echoes (log s)"
    using and_list_echoes [OF al] by (simp add: s')
  show "\<exists>k\<le>length ts.
      ran (log s') = ran (log s) @ map (\<lambda>t. (t, resolve (cwd s) m)) (take k ts)"
  proof (cases "cd_target (is_dir E (world s)) (cwd s) m")
    case None
    then have "s2 = s"
      using al by (cases ts) auto
    then show ?thesis by (auto simp: s' intro!: exI [of _ 0])
  next
    case (Some d)
    then have d: "d = resolve (cwd s) m"
      by (simp add: cd_target_resolve)
    show ?thesis
    proof (cases ts)
      case Nil
      then show ?thesis using al Some by (auto simp: s' intro!: exI [of _ 0])
    next
      case (Cons t us)
      then have "and_list E (map Tool ts) (s\<lparr>cwd := resolve (cwd s) m\<rparr>) = (r, b, s2)"
        using al Some d by simp
      from and_list_tools [OF this] show ?thesis
        by (simp add: s')
    qed
  qed
qed

lemma echo_simps:
  "cwd (echo l s) = cwd s" "world (echo l s) = world s"
  "echoes (log (echo l s)) = echoes (log s) @ [l]"
  "ran (log (echo l s)) = ran (log s)"
  by (simp_all add: echo_def echoes_append ran_append)

lemma for_modules_subshell_props:
  "for_modules_subshell E label tools ms s = (rs, s') \<Longrightarrow>
     cwd s' = cwd s \<and> length rs \<le> length ms \<and> list_all (\<lambda>r. r = 0) (butlast rs) \<and>
     (length rs < length ms \<longrightarrow> rs \<noteq> [] \<and> last rs \<noteq> 0) \<and>
     echoes (log s') = echoes (log s) @ map label (take (length rs) ms)"
proof (induction ms arbitrary: s rs s')
  case Nil
  then show ?case by simp
next
  case (Cons m ms)
  obtain r s1 where body: "subshell E (Cd m # map Tool (tools m)) (echo (label m) s) = (r, s1)"
    by (cases "subshell E (Cd m # map Tool (tools m)) (echo (label m) s)")
  note b = subshell_body(1,2) [OF body, unfolded echo_simps]
  show ?case
  proof (cases "r = 0")
    case False
    then have "rs = [r]" "s' = s1"
      using Cons.prems body by simp_all
    then show ?thesis using b False by simp
  next
    case True
    obtain rs2 s2 where rest: "for_modules_subshell E label tools ms s1 = (rs2, s2)"
      by (cases "for_modules_subshell E label tools ms s1")
    then have rs: "rs = 0 # rs2" "s' = s2"
      using Cons.prems body True by simp_all
    from Cons.IH [OF rest] show ?thesis
      using b by (cases rs2) (auto simp: rs)
  qed
qed

lemma for_modules_subshell_ran:
  "for_modules_subshell E label tools ms s = (rs, s') \<Longrightarrow>
     \<exists>ks. length ks = length rs \<and>
       ran (log s') = ran (log s) @
         concat (map (\<lambda>(m, k). map (\<lambda>t. (t, resolve (cwd s) m)) (take k (tools m)))
                   (zip ms ks))"
proof (induction ms arbitrary: s rs s')
  case Nil
  then show ?case by simp
next
  case (Cons m ms)
  obtain r s1 where body: "subshell E (Cd m # map Tool (tools m)) (echo (label m) s) = (r, s1)"
    by (cases "subshell E (Cd m # map Tool (tools m)) (echo (label m) s)")
  note c = subshell_body(1) [OF body, unfolded echo_simps]
  from subshell_body(3) [OF body, unfolded echo_simps] obtain k where
    k: "ran (log s1) = ran (log s) @ map (\<lambda>t. (t, resolve (cwd s) m)) (take k (tools m))"
    by blast
  show ?case
  proof (cases "r = 0")
    case False
    then have "rs = [r]" "s' = s1"
      using Cons.prems body by simp_all
    then show ?thesis using k by (auto intro!: exI [of _ "[k]"])
  next
    case True
    obtain rs2 s2 where rest: "for_modules_subshell E label tools ms s1 = (rs2, s2)"
      by (cases "for_modules_subshell E label tools ms s1")
    then have rs: "rs = 0 # rs2" "s' = s2"
      using Cons.prems body True by simp_all
    from Cons.IH [OF rest] obtain ks where
      ks: "length ks = length rs2"
        "ran (log s2) = ran (log s1) @
           concat (map (\<lambda>(m, k). map (\<lambda>t. (t, resolve (cwd s1) m)) (take k (tools m)))
                     (zip ms ks))"
      by blast
    show ?thesis
      using ks k c by (auto intro!: exI [of _ "k # ks"] simp: rs)
  qed
qed



subsection \<open>Facts about paths and coverage profiles\<close>

lemma split_slash_nonempty: "split_slash a \<noteq> []"
  by (induction a) (auto split: list.splits)

lemma split_slash_append:
  "split_slash (a @ CHR ''/'' # b) = split_slash a @ split_slash b"
  using split_slash_nonempty
  by (induction a) (auto split: list.splits)

lemma split_slash_plain: "CHR ''/'' \<notin> set a \<Longrightarrow> split_slash a = [a]"
  by (induction a) auto

lemma split_slash_components:
  "list_all (\<lambda>c. CHR ''/'' \<notin> set c) cs \<Longrightarrow>
   split_slash (a @ concat (map (\<lambda>c. CHR ''/'' # c) cs)) = split_slash a @ cs"
proof (induction cs arbitrary: a)
  case Nil
  then show ?case by simp
next
  case (Cons c cs)
  have "split_slash ((a @ CHR ''/'' # c) @ concat (map (\<lambda>c. CHR ''/'' # c) cs))
      = split_slash (a @ CHR ''/'' # c) @ cs"
    using Cons.IH [of "a @ CHR ''/'' # c"] Cons.prems by simp
  then show ?case
    using Cons.prems by (simp add: split_slash_append split_slash_plain)
qed

lemma walk_append: "walk dir (xs @ ys) = walk (walk dir xs) ys"
  by (induction xs arbitrary: dir) auto

lemma walk_plain: "list_all plain_component cs \<Longrightarrow> walk dir cs = dir @ cs"
  by (induction cs arbitrary: dir) (auto simp: plain_component_def)

lemma tr_slash_no_slash: "CHR ''/'' \<notin> set (tr_slash m)"
  by (auto simp: tr_slash_def)

lemma cover_name_plain: "plain_component (tr_slash m @ ''.out'')"
  using tr_slash_no_slash [of m] by (auto simp: plain_component_def append_eq_Cons_conv)

lemma resolve_coverprofile_abs:
  assumes "list_all plain_component curdir"
  shows "resolve dir (coverprofile_abs curdir m) = curdir @ [''coverage'', tr_slash m @ ''.out'']"
proof -
  let ?name = "tr_slash m @ ''.out''"
  have ns: "list_all (\<lambda>c. CHR ''/'' \<notin> set c) curdir"
    using assms by (auto simp: list_all_iff plain_component_def)
  have hd: "(case coverprofile_abs curdir m of [] \<Rightarrow> dir | c # _ \<Rightarrow> if c = CHR ''/'' then [] else dir) = []"
    by (cases curdir) (simp_all add: coverprofile_abs_def abs_path_def)
  have sp: "split_slash (abs_path curdir) = [] # (if curdir = [] then [[]] else curdir)"
    using split_slash_components [OF ns, of "[]"] by (simp add: abs_path_def)
  have "coverprofile_abs curdir m = abs_path curdir @ CHR ''/'' # (''coverage'' @ CHR ''/'' # ?name)"
    by (simp add: coverprofile_abs_def)
  then have "split_slash (coverprofile_abs curdir m)
      = split_slash (abs_path curdir) @ [''coverage'', ?name]"
    using tr_slash_no_slash [of m]
    by (simp only: split_slash_append) (simp add: split_slash_plain)
  then have "walk [] (split_slash (coverprofile_abs curdir m))
      = walk [] curdir @ [''coverage'', ?name]"
    using cover_name_plain [of m]
    by (simp add: sp walk_append walk_plain plain_component_def)
  then show ?thesis
    using assms by (simp add: resolve_def hd walk_plain)
qed

lemma resolve_coverprofile_rel:
  "resolve dir (coverprofile_rel m) = butlast dir @ [''coverage'', tr_slash m @ ''.out'']"
proof -
  have "coverprofile_rel m = ''..'' @ CHR ''/'' # (''coverage'' @ CHR ''/'' # (tr_slash m @ ''.out''))"
    by (simp add: coverprofile_rel_def)
  then have "split_slash (coverprofile_rel m) = [''..'', ''coverage'', tr_slash m @ ''.out'']"
    using tr_slash_no_slash [of m]
    by (simp only: split_slash_append) (simp add: split_slash_plain)
  then show ?thesis
    using cover_name_plain [of m]
    by (simp add: resolve_def coverprofile_rel_def plain_component_def)
qed


lemma resolve_single:
  "plain_component m \<Longrightarrow> resolve dir m = dir @ [m]"
  by (cases m) (auto simp: resolve_def split_slash_plain plain_component_def)

subsection \<open>Facts about the coverage recipes\<close>

lemma safe_char_not_blank: "safe_char c \<Longrightarrow> \<not> is_blank c"
  by (auto simp: safe_char_def is_blank_def)

lemma words_Nil: "words [] = []"
  by (simp add: words_def)

lemma assign_m_safe: "safe_path M \<Longrightarrow> assign_m E M s = (0, M, s)"
proof -
  assume "safe_path M"
  then have "\<forall>c\<in>set M. \<not> is_blank c"
    using safe_char_not_blank by (auto simp: safe_path_def list_all_iff)
  then have tk: "takeWhile (\<lambda>c. \<not> is_blank c) M = M"
      and dr: "dropWhile (\<lambda>c. \<not> is_blank c) M = []"
    by (simp_all add: takeWhile_eq_all_conv dropWhile_eq_Nil_conv)
  show ?thesis
    unfolding assign_m_def tk dr by (simp add: words_Nil)
qed



lemma coverage_file_eq:
  "list_all plain_component curdir \<Longrightarrow>
   coverage_file curdir m = curdir @ [''coverage'', tr_slash m @ ''.out'']"
  by (simp add: coverage_file_def resolve_coverprofile_abs)



lemma coverage_files_agree_one_level:
  assumes "list_all plain_component curdir" and "plain_component m"
  shows "coverage_file_inline curdir m = coverage_file curdir m"
  using assms
  by (simp add: coverage_file_inline_def coverage_file_eq resolve_coverprofile_rel resolve_single)

subsection \<open>Facts about module-create\<close>










lemma modman_changelog_line: "modman (snd (changelog_line E M s)) = modman s"
  by (simp add: changelog_line_def say_def split: prod.splits)




section \<open>Results on the relative-linking toggler\<close>

text \<open>
  C1 (amended). Enable followed by Disable gives back the manifest when the manifest had
  no marker line before Enable and no directive of the inserted block is the end marker:
  line for line, and byte for byte when the manifest is a text of newline-terminated
  lines. Disable removes every marker line, so a manifest that already holds one does
  not come back.
\<close>

theorem toggler_round_trip:
  assumes "MARK_BEGIN \<notin> set C" and "MARK_END \<notin> set C" and "MARK_END \<notin> set ds"
  shows "unmakerelative_lines (makerelative k ds C) = C \<and>
         (list_all (\<lambda>l. newline \<notin> set l) (C @ ds) \<longrightarrow>
            unmakerelative_text (awk_print (makerelative k ds C)) = awk_print C)"
  using assms
  by (simp add: round_trip_lines unmakerelative_text_lines makerelative_lines_ok)

theorem toggler_round_trip_witness:
  "unmakerelative_lines
     (makerelative 1 [''replace example.com/x => ../x''] [''module example.com/m'', ''go 1.25''])
     = [''module example.com/m'', ''go 1.25''] \<and>
   unmakerelative_text
     (awk_print (makerelative 1 [''replace example.com/x => ../x'']
        [''module example.com/m'', ''go 1.25'']))
     = awk_print [''module example.com/m'', ''go 1.25'']"
  using toggler_round_trip [of "[''module example.com/m'', ''go 1.25'']"
      "[''replace example.com/x => ../x'']" 1]
  by (simp add: MARK_BEGIN_def MARK_END_def newline_def)

text \<open>
  C1 as stated fails: a manifest with a stray end-marker line loses that line on the way
  through Enable and Disable. Whatever Enable does, what Disable returns holds no marker
  line (lemma \<open>unmakerelative_lines_no_marker_left\<close>), so a manifest that holds one cannot
  come back.
\<close>

theorem toggler_round_trip_counterexample:
  "unmakerelative_lines (makerelative 2 [''replace example.com/x => ../x''] stray_end_manifest)
     = [''module example.com/m''] \<and>
   unmakerelative_lines (makerelative 2 [''replace example.com/x => ../x''] stray_end_manifest)
     \<noteq> stray_end_manifest"
  by (simp add: unmakerelative_lines_def makerelative_def stray_end_manifest_def
      MARK_BEGIN_def MARK_END_def)







section \<open>Results on module discovery\<close>

text \<open>
  C5 (amended). For a tree whose entries have proper names (not empty, no slash, no white
  space, neither \<^verbatim>\<open>.\<close> nor \<^verbatim>\<open>..\<close>), discovery returns the directories, other than the
  workspace root, that hold a regular file \<^verbatim>\<open>go.mod\<close>, each once, in the order of the
  collation \<^verbatim>\<open>sort\<close> runs with, as long as that collation tells any two distinct paths
  apart (in the C locale it is the order of their bytes). The root (which would show as
  \<^verbatim>\<open>.\<close>) is never among them, also when it has a manifest of its own. On the example
  tree, in the C locale, the result is the five modules in the order of the scenario.
\<close>

theorem module_discovery:
  assumes "wf_tree t" and "inj coll"
  shows "set (MODULES coll t)
           = rel_path ` {dir. dir \<noteq> [] \<and> (dir @ [''go.mod''], Regular) \<in> set t} \<and>
         sorted (map coll (MODULES coll t)) \<and> distinct (MODULES coll t) \<and>
         ''.'' \<notin> set (MODULES coll t) \<and> [] \<notin> set (MODULES coll t) \<and>
         MODULES c_locale example_tree
           = [''db/gorm'', ''grpc/client'', ''grpc/server'', ''http/chi'', ''http/gin'']"
proof -
  have wf: "list_all plain_component dir" if "(dir @ [''go.mod''], Regular) \<in> set t" for dir
    using assms(1) that by (auto simp: wf_tree_def list_all_iff)
  have "x \<noteq> ''.'' \<and> x \<noteq> []" if "x \<in> set (MODULES coll t)" for x
  proof -
    from that obtain dir where "dir \<noteq> []" "(dir @ [''go.mod''], Regular) \<in> set t" "x = rel_path dir"
      unfolding set_MODULES [OF assms] by blast
    then show ?thesis
      using rel_path_not_dot [of dir] wf [of dir] by simp
  qed
  then have "''.'' \<notin> set (MODULES coll t) \<and> [] \<notin> set (MODULES coll t)"
    by blast
  moreover have "MODULES c_locale example_tree
      = [''db/gorm'', ''grpc/client'', ''grpc/server'', ''http/chi'', ''http/gin'']"
    by code_simp
  ultimately show ?thesis
    using set_MODULES [OF assms] sorted_MODULES [OF assms(1), of coll] by simp
qed

text \<open>
  The example tree with a manifest at the root gives the same five modules.
\<close>

theorem module_discovery_witness:
  "wf_tree root_manifest_tree \<and> inj c_locale \<and>
   MODULES c_locale root_manifest_tree
     = [''db/gorm'', ''grpc/client'', ''grpc/server'', ''http/chi'', ''http/gin''] \<and>
   ''.'' \<notin> set (MODULES c_locale root_manifest_tree) \<and>
   sorted (map c_locale (MODULES c_locale root_manifest_tree)) \<and>
   distinct (MODULES c_locale root_manifest_tree)"
proof -
  have wf: "wf_tree root_manifest_tree"
    by code_simp
  have inj: "inj c_locale"
    by (simp add: inj_def c_locale_def)
  have ms: "MODULES c_locale root_manifest_tree
      = [''db/gorm'', ''grpc/client'', ''grpc/server'', ''http/chi'', ''http/gin'']"
    by code_simp
  from module_discovery [OF wf inj]
  have "''.'' \<notin> set (MODULES c_locale root_manifest_tree) \<and>
      sorted (map c_locale (MODULES c_locale root_manifest_tree)) \<and>
      distinct (MODULES c_locale root_manifest_tree)"
    by blast
  then show ?thesis
    using wf inj ms by blast
qed

text \<open>
  C5 as stated fails for a directory whose name holds a blank: \<^verbatim>\<open>$(shell ...)\<close> turns
  the newlines of the output into blanks and the list is cut at white space, so the module
  directory \<^verbatim>\<open>my mod\<close> comes back as the two words \<^verbatim>\<open>my\<close> and \<^verbatim>\<open>mod\<close>.
\<close>

theorem module_discovery_counterexample:
  "blank_tree = [([''my mod''], Directory), ([''my mod'', ''go.mod''], Regular)] \<and>
   MODULES c_locale blank_tree = [''my'', ''mod''] \<and>
   ''my mod'' \<notin> set (MODULES c_locale blank_tree)"
proof -
  have "MODULES c_locale blank_tree = [''my'', ''mod'']"
    by code_simp
  then show ?thesis
    by (simp add: blank_tree_def)
qed

section \<open>Results on the task runner\<close>







text \<open>
  The working directory of the loop with the subshell (the first Makefile): every command
  of a module runs in that module's directory below the directory the recipe started in,
  and the recipe ends where it started.
\<close>

lemma deps_runs_in_module_directories:
  assumes "deps E MODS s = (rs, s')"
  shows "cwd s' = cwd s \<and>
         (\<exists>ks. length ks = length rs \<and>
            ran (log s') = ran (log s) @
              concat (map (\<lambda>(m, k). map (\<lambda>t. (t, resolve (cwd s) m))
                                      (take k [''go mod download'', ''go mod tidy'']))
                        (zip MODS ks)))"
  using assms for_modules_subshell_props [of E _ _ MODS s rs s']
    for_modules_subshell_ran [of E _ _ MODS s rs s']
  by (simp add: deps_def)

text \<open>
  C10, at the input where the second Makefile breaks it. Without the subshell the
  directory change of the first module stays: \<^verbatim>\<open>cd grpc/client\<close> is tried from
  \<^verbatim>\<open>db/gorm\<close> and fails, no command runs for the second module, and the recipe ends in
  the first module's directory with status 1. The first Makefile, on the same input, runs
  each module's commands in its own directory and ends at the root.
\<close>

theorem deps_inline_keeps_directory:
  "deps_inline repo_env [''db/gorm'', ''grpc/client''] demo_shell
     = ([0, 1],
        \<lparr>cwd = demo_root @ [''db'', ''gorm''], world = (),
         log = [Echo ''==> deps in db/gorm'',
                Ran ''go mod download'' (demo_root @ [''db'', ''gorm'']) 0,
                Ran ''go mod tidy'' (demo_root @ [''db'', ''gorm'']) 0,
                Echo ''==> deps in grpc/client'']\<rparr>) \<and>
   deps repo_env [''db/gorm'', ''grpc/client''] demo_shell
     = ([0, 0],
        \<lparr>cwd = demo_root, world = (),
         log = [Echo ''==> deps in db/gorm'',
                Ran ''go mod download'' (demo_root @ [''db'', ''gorm'']) 0,
                Ran ''go mod tidy'' (demo_root @ [''db'', ''gorm'']) 0,
                Echo ''==> deps in grpc/client'',
                Ran ''go mod download'' (demo_root @ [''grpc'', ''client'']) 0,
                Ran ''go mod tidy'' (demo_root @ [''grpc'', ''client'']) 0]\<rparr>)"
  by (simp add: deps_inline_def deps_def subshell_def echo_def banner_def repo_env_def
      demo_shell_def demo_root_def resolve_def cd_target_def example_tree_def)

section \<open>Results on coverage files\<close>

text \<open>
  A selector with a blank: in \<^verbatim>\<open>make test-coverage MODULE='a b'\<close> the shell reads
  \<^verbatim>\<open>m=a b;\<close>, runs \<^verbatim>\<open>b\<close> as a command and, when that fails, leaves before any test is
  run.
\<close>

lemma test_coverage_blank_selector:
  "test_coverage (failing_env demo_root) ''a b'' [] demo_shell
     = ([1],
        \<lparr>cwd = demo_root, world = (),
         log = [Ran ''mkdir -p /work/repo/coverage'' demo_root 1, Ran ''b'' demo_root 1]\<rparr>)"
  by (simp add: test_coverage_def assign_m_def is_blank_def is_space_def words_def unwords_def
      failing_env_def demo_shell_def demo_root_def abs_path_def Let_def)




text \<open>
  C9, at the input where the second Makefile breaks it. For \<^verbatim>\<open>MODULE=http/gin\<close> the
  second Makefile starts \<^verbatim>\<open>go test\<close> in \<^verbatim>\<open>http/gin\<close> with the profile
  \<^verbatim>\<open>../coverage/http_gin.out\<close>, which is \<^verbatim>\<open>http/coverage/http_gin.out\<close> below the root;
  the first Makefile writes \<^verbatim>\<open>coverage/http_gin.out\<close> below the root. The two agree for
  modules one level below the root only (lemma \<open>coverage_files_agree_one_level\<close>).
\<close>

theorem coverage_file_inline_differs:
  "test_coverage_inline repo_env ''http/gin'' [] demo_shell
     = ([0],
        \<lparr>cwd = demo_root @ [''http'', ''gin''], world = (),
         log = [Ran ''mkdir -p coverage'' demo_root 0,
                Echo ''==> coverage in http/gin'',
                Ran ''go test -v -coverprofile=../coverage/http_gin.out ./...''
                  (demo_root @ [''http'', ''gin'']) 0]\<rparr>) \<and>
   coverage_file_inline demo_root ''http/gin''
     = demo_root @ [''http'', ''coverage'', ''http_gin.out''] \<and>
   test_coverage repo_env ''http/gin'' [] demo_shell
     = ([0],
        \<lparr>cwd = demo_root, world = (),
         log = [Ran ''mkdir -p /work/repo/coverage'' demo_root 0,
                Echo ''==> coverage in http/gin'',
                Ran ''go test -v -coverprofile=/work/repo/coverage/http_gin.out ./...''
                  (demo_root @ [''http'', ''gin'']) 0]\<rparr>) \<and>
   coverage_file demo_root ''http/gin'' = demo_root @ [''coverage'', ''http_gin.out'']"
proof -
  have p: "list_all plain_component demo_root"
    by (simp add: demo_root_def plain_component_def)
  have a: "test_coverage_inline repo_env ''http/gin'' [] demo_shell
     = ([0],
        \<lparr>cwd = demo_root @ [''http'', ''gin''], world = (),
         log = [Ran ''mkdir -p coverage'' demo_root 0,
                Echo ''==> coverage in http/gin'',
                Ran ''go test -v -coverprofile=../coverage/http_gin.out ./...''
                  (demo_root @ [''http'', ''gin'']) 0]\<rparr>)"
    by (simp add: test_coverage_inline_def assign_m_safe safe_path_def safe_char_def
        echo_def banner_def repo_env_def demo_shell_def
        demo_root_def resolve_def cd_target_def example_tree_def cover_cmd_def coverprofile_rel_def
        tr_slash_def Let_def)
  have b: "test_coverage repo_env ''http/gin'' [] demo_shell
     = ([0],
        \<lparr>cwd = demo_root, world = (),
         log = [Ran ''mkdir -p /work/repo/coverage'' demo_root 0,
                Echo ''==> coverage in http/gin'',
                Ran ''go test -v -coverprofile=/work/repo/coverage/http_gin.out ./...''
                  (demo_root @ [''http'', ''gin'']) 0]\<rparr>)"
    by (simp add: test_coverage_def assign_m_safe safe_path_def safe_char_def
        subshell_def echo_def banner_def repo_env_def demo_shell_def
        demo_root_def resolve_def cd_target_def example_tree_def cover_cmd_def coverprofile_abs_def
        abs_path_def tr_slash_def Let_def)
  have c: "coverage_file_inline demo_root ''http/gin''
     = demo_root @ [''http'', ''coverage'', ''http_gin.out'']"
    by (simp add: coverage_file_inline_def resolve_coverprofile_rel tr_slash_def)
      (simp add: resolve_def cd_target_def demo_root_def)
  have d: "coverage_file demo_root ''http/gin'' = demo_root @ [''coverage'', ''http_gin.out'']"
    by (simp add: coverage_file_eq [OF p] tr_slash_def)
  from a b c d show ?thesis by blast
qed

section \<open>Results on the release manifest\<close>



text \<open>
  When modman.toml does not end in a newline the appended header continues its last
  line, \<^verbatim>\<open>grep\<close> does not find it there, and a second registration appends the entry
  again.
\<close>

lemma register_module_unterminated:
  "snd (register_module quiet_outside ''cache/mem''
          (snd (register_module quiet_outside ''cache/mem''
                  \<lparr>outside = (), modman = Some ''[tool]'', said = []\<rparr>)))
     = \<lparr>outside = (),
        modman = Some (''[tool]'' @ awk_print (new_entry ''cache/mem'') @
                       awk_print (new_entry ''cache/mem'')),
        said = [''Updating modman.toml with module cache/mem'',
                ''Updating modman.toml with module cache/mem'']\<rparr>"
  by (simp add: register_module_def quiet_outside_def grep_literal_def content_def say_def
      awk_print_def new_entry_def entry_header_def is_space_def dquote_def newline_def)


end
